theory Spec2Isabelle
  imports Complex_Main "HOL-Library.Char_ord" "HOL-Library.List_Lexorder"
begin

section \<open>Data model (schemas.py)\<close>

text \<open>
  Timestamps. The record store keeps \<open>placed_at\<close> as a BSON date, a count of
  milliseconds, and the driver truncates every Python \<open>datetime\<close> it sends to
  milliseconds; all comparisons of the pipelines are between such counts. A \<open>datetime\<close>
  is therefore the number of milliseconds since 0001-01-01T00:00:00 UTC, the instant at
  which Python's proleptic Gregorian ordinal 1 begins. Python restricts years to 1..9999;
  the model has no such bound.

  Amounts. \<open>price\<close> and \<open>total_amount\<close> are Python floats. They are modelled as exact
  rationals: sums and products are exact, and \<open>round(x, 2)\<close> is rounding of the exact value to
  the nearest multiple of 1/100, ties to even. The representation error of binary floating
  point is outside the model.
\<close>

type_synonym datetime = int

record OrderItem =
  product_id :: string
  title :: string
  price :: rat
  quantity :: int

record Order =
  customer_id :: "string option"
  customer_name :: "string option"
  items :: "OrderItem list"
  total_amount :: rat
  status :: string
  placed_at :: "datetime option"

record Customer =
  name :: string
  email :: string
  phone :: "string option"
  address :: "string option"
  city :: "string option"
  country :: "string option"
  segment :: "string option"

text \<open>The module-level handle \<open>db\<close>: the two collections the overview reads.\<close>

record database =
  order :: "Order list"
  customer :: "Customer list"

section \<open>The calendar of Python's datetime module\<close>

text \<open>
  The overview reads \<open>now.year\<close>, \<open>now.month\<close>, \<open>now.day\<close>, builds
  \<open>datetime(y, m, d)\<close>, adds and subtracts \<open>timedelta(days=k)\<close> and prints dates. These
  are the standard library's \<open>_is_leap\<close>, \<open>_days_before_year\<close>, \<open>_days_before_month\<close>,
  \<open>_ymd2ord\<close> and \<open>_ord2ymd\<close>, with their two month tables; \<open>(n + 50) >> 5\<close> is
  written \<open>(n + 50) div 32\<close>. The tables are read at months 1 to 12 only: every month
  here comes out of \<open>ord2ymd\<close> or is a literal.
\<close>

definition ms_per_day :: int where
  "ms_per_day = 86400000"

definition DAYS_IN_MONTH :: "int list" where
  "DAYS_IN_MONTH = [-1, 31, 28, 31, 30, 31, 30, 31, 31, 30, 31, 30, 31]"

definition DAYS_BEFORE_MONTH :: "int list" where
  "DAYS_BEFORE_MONTH = [-1, 0, 31, 59, 90, 120, 151, 181, 212, 243, 273, 304, 334]"

definition is_leap :: "int \<Rightarrow> bool" where
  "is_leap y = (y mod 4 = 0 \<and> (y mod 100 \<noteq> 0 \<or> y mod 400 = 0))"

definition days_before_year :: "int \<Rightarrow> int" where
  "days_before_year y' = (let y = y' - 1 in y * 365 + y div 4 - y div 100 + y div 400)"

definition days_before_month :: "int \<Rightarrow> int \<Rightarrow> int" where
  "days_before_month y m =
     DAYS_BEFORE_MONTH ! nat m + (if 2 < m \<and> is_leap y then 1 else 0)"

definition ymd2ord :: "int \<Rightarrow> int \<Rightarrow> int \<Rightarrow> int" where
  "ymd2ord y m d = days_before_year y + days_before_month y m + d"

definition ord2ymd :: "int \<Rightarrow> int \<times> int \<times> int" where
  "ord2ymd n0 =
     (let n = n0 - 1;
          n400 = n div 146097; n = n mod 146097;
          y = n400 * 400 + 1;
          n100 = n div 36524; n = n mod 36524;
          n4 = n div 1461; n = n mod 1461;
          n1 = n div 365; n = n mod 365;
          y = y + n100 * 100 + n4 * 4 + n1
      in if n1 = 4 \<or> n100 = 4 then (y - 1, 12, 31)
         else
           let leapyear = (n1 = 3 \<and> (n4 \<noteq> 24 \<or> n100 = 3));
               m = (n + 50) div 32;
               preceding = DAYS_BEFORE_MONTH ! nat m + (if 2 < m \<and> leapyear then 1 else 0)
           in if n < preceding
              then let m' = m - 1;
                       preceding' = preceding -
                         (DAYS_IN_MONTH ! nat m' + (if m' = 2 \<and> leapyear then 1 else 0))
                   in (y, m', n - preceding' + 1)
              else (y, m, n - preceding + 1))"

text \<open>\<open>toordinal\<close>, the accessors \<open>.year\<close>, \<open>.month\<close>, \<open>.day\<close>, the constructor
  \<open>datetime(y, m, d, tzinfo=utc)\<close> (midnight of that date) and \<open>timedelta(days=k)\<close>.\<close>

definition toordinal :: "datetime \<Rightarrow> int" where
  "toordinal t = t div ms_per_day + 1"

definition year :: "datetime \<Rightarrow> int" where
  "year t = fst (ord2ymd (toordinal t))"

definition month :: "datetime \<Rightarrow> int" where
  "month t = fst (snd (ord2ymd (toordinal t)))"

definition day :: "datetime \<Rightarrow> int" where
  "day t = snd (snd (ord2ymd (toordinal t)))"

definition datetime_utc :: "int \<Rightarrow> int \<Rightarrow> int \<Rightarrow> datetime" where
  "datetime_utc y m d = (ymd2ord y m d - 1) * ms_per_day"

definition timedelta :: "int \<Rightarrow> int" where
  "timedelta days = days * ms_per_day"

text \<open>The text \<open>YYYY-MM-DD\<close>, which both \<open>date.isoformat()\<close> and the store's
  \<open>$dateToString\<close> with format \<open>%Y-%m-%d\<close> produce for a date.\<close>

definition digit :: "int \<Rightarrow> char" where
  "digit k = ''0123456789'' ! nat (k mod 10)"

definition isoformat :: "int \<times> int \<times> int \<Rightarrow> string" where
  "isoformat ymd = (case ymd of (y, m, d) \<Rightarrow>
     [digit (y div 1000), digit (y div 100), digit (y div 10), digit y] @ ''-'' @
     [digit (m div 10), digit m] @ ''-'' @ [digit (d div 10), digit d])"

definition date_isoformat :: "datetime \<Rightarrow> string" where
  "date_isoformat t = isoformat (ord2ymd (toordinal t))"

definition dateToString :: "datetime \<Rightarrow> string" where
  "dateToString t = isoformat (ord2ymd (toordinal t))"

section \<open>Rounding and division\<close>

datatype error = HTTPException nat string | ZeroDivisionError

text \<open>Round half to even, as Python's \<open>round\<close> does on the exact value.\<close>

definition py_round :: "rat \<Rightarrow> int" where
  "py_round x =
     (let f = \<lfloor>x\<rfloor>; r = x - of_int f
      in if r < 1 / 2 then f else if 1 / 2 < r then f + 1
         else if even f then f else f + 1)"

definition round2 :: "rat \<Rightarrow> rat" where
  "round2 x = of_int (py_round (x * 100)) / 100"

definition py_div :: "rat \<Rightarrow> nat \<Rightarrow> error + rat" where
  "py_div a b = (if b = 0 then Inl ZeroDivisionError else Inr (a / of_nat b))"

section \<open>The aggregation stages of the record store\<close>

text \<open>\<open>{"$match": {"placed_at": {"$gte": bound}}}\<close>: a document without a date does
  not match.\<close>

definition match_gte :: "datetime \<Rightarrow> Order \<Rightarrow> bool" where
  "match_gte bound doc = (case placed_at doc of None \<Rightarrow> False | Some t \<Rightarrow> bound \<le> t)"

text \<open>\<open>$group\<close>: one output document per distinct key, holding the accumulators folded
  over the documents of that key. The store does not promise an order of the groups; the
  model lists them by first appearance.\<close>

definition group_step :: "('d \<Rightarrow> 'k) \<Rightarrow> ('d \<Rightarrow> 'a \<Rightarrow> 'a) \<Rightarrow> 'a \<Rightarrow> 'd \<Rightarrow> ('k \<times> 'a) list \<Rightarrow> ('k \<times> 'a) list" where
  "group_step key acc init d gs =
     (if key d \<in> fst ` set gs
      then map (\<lambda>(k, a). if k = key d then (k, acc d a) else (k, a)) gs
      else gs @ [(key d, acc d init)])"

definition group_docs :: "('d \<Rightarrow> 'k) \<Rightarrow> ('d \<Rightarrow> 'a \<Rightarrow> 'a) \<Rightarrow> 'a \<Rightarrow> 'd list \<Rightarrow> ('k \<times> 'a) list" where
  "group_docs key acc init docs = fold (group_step key acc init) docs []"

text \<open>The result documents \<open>{revenue, orders}\<close> of the window pipelines and of the
  per-day pipeline.\<close>

record totals =
  revenue :: rat
  orders :: nat

definition add_order :: "Order \<Rightarrow> totals \<Rightarrow> totals" where
  "add_order doc t = \<lparr>revenue = revenue t + total_amount doc, orders = orders t + 1\<rparr>"

definition zero_totals :: totals where
  "zero_totals = \<lparr>revenue = 0, orders = 0\<rparr>"

text \<open>\<open>pipeline_today\<close> and \<open>pipeline_mtd\<close>: match, then one group with \<open>_id\<close> None.
  Over no documents the group stage emits nothing.\<close>

definition pipeline_window :: "datetime \<Rightarrow> Order list \<Rightarrow> totals list" where
  "pipeline_window start docs =
     map snd (group_docs (\<lambda>_. ()) add_order zero_totals (filter (match_gte start) docs))"

text \<open>\<open>next(iter(...), None) or {"revenue": 0, "orders": 0}\<close>\<close>

definition first_or_zero :: "totals list \<Rightarrow> totals" where
  "first_or_zero rs = (case rs of [] \<Rightarrow> zero_totals | r # _ \<Rightarrow> r)"

text \<open>\<open>pipeline_top_products\<close>: match, unwind the items, group by the pair
  (product id, title), sort by revenue descending, limit 5. The sort is modelled as a
  stable one; the store leaves the order of ties open.\<close>

record product_group =
  g_quantity :: int
  g_revenue :: rat

definition add_item :: "OrderItem \<Rightarrow> product_group \<Rightarrow> product_group" where
  "add_item it g = \<lparr>g_quantity = g_quantity g + quantity it,
                   g_revenue = g_revenue g + price it * of_int (quantity it)\<rparr>"

definition zero_group :: product_group where
  "zero_group = \<lparr>g_quantity = 0, g_revenue = 0\<rparr>"

definition unwind_items :: "Order list \<Rightarrow> OrderItem list" where
  "unwind_items docs = concat (map items docs)"

definition item_key :: "OrderItem \<Rightarrow> string \<times> string" where
  "item_key it = (product_id it, title it)"

definition pipeline_top_products :: "datetime \<Rightarrow> Order list \<Rightarrow> ((string \<times> string) \<times> product_group) list" where
  "pipeline_top_products last_30 docs =
     take 5 (sort_key (\<lambda>p. - g_revenue (snd p))
       (group_docs item_key add_item zero_group (unwind_items (filter (match_gte last_30) docs))))"

record top_product =
  tp_product_id :: string
  tp_title :: string
  tp_quantity :: int
  tp_revenue :: rat

definition top_product_row :: "(string \<times> string) \<times> product_group \<Rightarrow> top_product" where
  "top_product_row p = \<lparr>tp_product_id = fst (fst p), tp_title = snd (fst p),
                        tp_quantity = g_quantity (snd p), tp_revenue = round2 (g_revenue (snd p))\<rparr>"

text \<open>\<open>pipeline_timeseries\<close>: match, project the day text, group by day, sort by day.
  Every matched document has a date; \<open>order_day\<close> of a document without one is the empty
  text, which is no day of the calendar.\<close>

definition order_day :: "Order \<Rightarrow> string" where
  "order_day doc = (case placed_at doc of None \<Rightarrow> [] | Some t \<Rightarrow> dateToString t)"

definition pipeline_timeseries :: "datetime \<Rightarrow> Order list \<Rightarrow> (string \<times> totals) list" where
  "pipeline_timeseries start_14 docs =
     sort_key fst (group_docs order_day add_order zero_totals (filter (match_gte start_14) docs))"

record day_entry =
  ts_day :: string
  ts_revenue :: rat
  ts_orders :: nat

definition timeseries_of :: "datetime \<Rightarrow> (string \<times> totals) list \<Rightarrow> day_entry list" where
  "timeseries_of start_14 series =
     (let by_day = map_of series;
          days = map (\<lambda>i. date_isoformat (start_14 + timedelta (int i))) [0..<14]
      in map (\<lambda>d. \<lparr>ts_day = d,
                    ts_revenue = (case by_day d of None \<Rightarrow> 0 | Some g \<Rightarrow> revenue g),
                    ts_orders = (case by_day d of None \<Rightarrow> 0 | Some g \<Rightarrow> orders g)\<rparr>) days)"

text \<open>\<open>pipeline_segments\<close>: group the customers by the segment field (a missing field and
  None are the same key), sort by count descending; then the label
  \<open>s["_id"] or "Uncategorized"\<close> is put on every row.\<close>

definition pipeline_segments :: "Customer list \<Rightarrow> (string option \<times> nat) list" where
  "pipeline_segments docs =
     sort_key (\<lambda>p. - int (snd p)) (group_docs segment (\<lambda>_ c. c + 1) 0 docs)"

record segment_row =
  sg_segment :: string
  sg_count :: nat

definition segment_label :: "string option \<Rightarrow> string" where
  "segment_label s = (case s of None \<Rightarrow> ''Uncategorized''
                      | Some l \<Rightarrow> if l = [] then ''Uncategorized'' else l)"

definition segment_row_of :: "string option \<times> nat \<Rightarrow> segment_row" where
  "segment_row_of s = \<lparr>sg_segment = segment_label (fst s), sg_count = snd s\<rparr>"

section \<open>analytics\_overview (main.py)\<close>

record report =
  today_revenue :: rat
  today_orders :: nat
  mtd_revenue :: rat
  mtd_orders :: nat
  avg_order_value :: rat
  top_products :: "top_product list"
  timeseries :: "day_entry list"
  segments :: "segment_row list"

definition start_today :: "datetime \<Rightarrow> datetime" where
  "start_today now = datetime_utc (year now) (month now) (day now)"

definition start_month :: "datetime \<Rightarrow> datetime" where
  "start_month now = datetime_utc (year now) (month now) 1"

definition avg_order_value_of :: "totals \<Rightarrow> error + rat" where
  "avg_order_value_of mtd =
     (if orders mtd \<noteq> 0
      then (case py_div (revenue mtd) (orders mtd) of
              Inl e \<Rightarrow> Inl e | Inr q \<Rightarrow> Inr (round2 q))
      else Inr 0)"

definition analytics_overview :: "database option \<Rightarrow> datetime \<Rightarrow> error + report" where
  "analytics_overview db now =
     (case db of
        None \<Rightarrow> Inl (HTTPException 500 ''Database not configured'')
      | Some d \<Rightarrow>
          (let today = first_or_zero (pipeline_window (start_today now) (order d));
               mtd = first_or_zero (pipeline_window (start_month now) (order d))
           in (case avg_order_value_of mtd of
                 Inl e \<Rightarrow> Inl e
               | Inr avg \<Rightarrow>
                   (let last_30 = now - timedelta 30;
                        tops = map top_product_row (pipeline_top_products last_30 (order d));
                        start_14 = now - timedelta 13;
                        series = pipeline_timeseries start_14 (order d);
                        ts = timeseries_of start_14 series;
                        segs = map segment_row_of (pipeline_segments (customer d))
                    in Inr \<lparr>today_revenue = round2 (revenue today),
                            today_orders = orders today,
                            mtd_revenue = round2 (revenue mtd),
                            mtd_orders = orders mtd,
                            avg_order_value = avg,
                            top_products = tops,
                            timeseries = ts,
                            segments = segs\<rparr>))))"

section \<open>Vocabulary of the properties\<close>


text \<open>An amount with at most two decimal places.\<close>

definition two_places :: "rat \<Rightarrow> bool" where
  "two_places x = (of_int \<lfloor>x * 100\<rfloor> = x * 100)"

text \<open>The documents that the per-day pipeline matches and whose day text is \<open>d\<close>.\<close>

definition day_orders :: "datetime \<Rightarrow> Order list \<Rightarrow> string \<Rightarrow> Order list" where
  "day_orders start_14 docs d = filter (\<lambda>doc. order_day doc = d) (filter (match_gte start_14) docs)"






text \<open>The last part of \<open>ord2ymd\<close>, which finds month and day from the day of the year.\<close>

definition ymd_tail :: "int \<Rightarrow> bool \<Rightarrow> int \<Rightarrow> int \<times> int \<times> int" where
  "ymd_tail y leapyear n =
     (if n < DAYS_BEFORE_MONTH ! nat ((n + 50) div 32) + (if 2 < (n + 50) div 32 \<and> leapyear then 1 else 0)
      then (y, (n + 50) div 32 - 1,
            n - (DAYS_BEFORE_MONTH ! nat ((n + 50) div 32) + (if 2 < (n + 50) div 32 \<and> leapyear then 1 else 0) -
                 (DAYS_IN_MONTH ! nat ((n + 50) div 32 - 1) + (if (n + 50) div 32 - 1 = 2 \<and> leapyear then 1 else 0))) + 1)
      else (y, (n + 50) div 32,
            n - (DAYS_BEFORE_MONTH ! nat ((n + 50) div 32) + (if 2 < (n + 50) div 32 \<and> leapyear then 1 else 0)) + 1))"

section \<open>Sample inputs\<close>

definition sample_order :: "OrderItem list \<Rightarrow> rat \<Rightarrow> datetime option \<Rightarrow> Order" where
  "sample_order its amount t =
     \<lparr>customer_id = None, customer_name = None, items = its, total_amount = amount,
      status = ''paid'', placed_at = t\<rparr>"

definition sample_customer :: "string option \<Rightarrow> Customer" where
  "sample_customer s =
     \<lparr>name = ''n'', email = ''e'', phone = None, address = None, city = None,
      country = None, segment = s\<rparr>"

definition hour :: int where
  "hour = 3600000"

text \<open>The clock reads 2024-03-15 12:00 UTC.\<close>

definition noon :: datetime where
  "noon = datetime_utc 2024 3 15 + 12 * hour"

definition widget :: OrderItem where
  "widget = \<lparr>product_id = ''p1'', title = ''Widget'', price = 5, quantity = 2\<rparr>"



text \<open>Two orders of this morning, 10.00 and 15.50.\<close>

definition db_two :: database where
  "db_two = \<lparr>order = [sample_order [] 10 (Some (datetime_utc 2024 3 15 + 9 * hour)),
                       sample_order [] (31 / 2) (Some (datetime_utc 2024 3 15 + 10 * hour))],
              customer = []\<rparr>"

text \<open>One order of 08:00 on 2024-03-02, the oldest day of the series at \<open>noon\<close>.\<close>

definition early_order :: Order where
  "early_order = sample_order [] 10 (Some (datetime_utc 2024 3 2 + 8 * hour))"

definition db_oldest :: database where
  "db_oldest = \<lparr>order = [early_order], customer = []\<rparr>"


text \<open>One customer without a segment and one whose segment is the empty text.\<close>

definition db_segments :: database where
  "db_segments = \<lparr>order = [], customer = [sample_customer None, sample_customer (Some [])]\<rparr>"

text \<open>One order of this morning whose stored total differs from its items.\<close>

definition db_mismatch :: database where
  "db_mismatch = \<lparr>order = [sample_order [widget] 100 (Some (datetime_utc 2024 3 15 + 9 * hour))],
                   customer = []\<rparr>"


section \<open>The calendar: an ordinal and its date\<close>

lemma div_lin: "0 \<le> r \<Longrightarrow> r < b \<Longrightarrow> (b * q + r) div b = (q::int)"
  by simp

lemma mod_eqI: "x = b * q + r \<Longrightarrow> 0 \<le> r \<Longrightarrow> r < b \<Longrightarrow> x mod b = (r::int)"
  by simp

lemma dby_decomp:
  fixes a b c e :: int
  assumes "0 \<le> b" "b \<le> 3" "0 \<le> c" "c \<le> 24" "0 \<le> e" "e \<le> 3"
  shows "days_before_year (400 * a + 100 * b + 4 * c + e + 1)
         = 146097 * a + 36524 * b + 1461 * c + 365 * e"
proof -
  let ?Y = "400 * a + 100 * b + 4 * c + e"
  have "?Y = 4 * (100 * a + 25 * b + c) + e" by simp
  then have d4: "?Y div 4 = 100 * a + 25 * b + c"
    using div_lin [of e 4 "100 * a + 25 * b + c"] assms by simp
  have "?Y = 100 * (4 * a + b) + (4 * c + e)" by simp
  then have d100: "?Y div 100 = 4 * a + b"
    using div_lin [of "4 * c + e" 100 "4 * a + b"] assms by simp
  have "?Y = 400 * a + (100 * b + 4 * c + e)" by simp
  then have d400: "?Y div 400 = a"
    using div_lin [of "100 * b + 4 * c + e" 400 a] assms by simp
  show ?thesis
    unfolding days_before_year_def Let_def
    using d4 d100 d400 by simp
qed

lemma leap_decomp:
  fixes a b c e :: int
  assumes "0 \<le> b" "b \<le> 3" "0 \<le> c" "c \<le> 24" "0 \<le> e" "e \<le> 3"
  shows "is_leap (400 * a + 100 * b + 4 * c + e + 1) = (e = 3 \<and> (c \<noteq> 24 \<or> b = 3))"
proof -
  let ?Y = "400 * a + 100 * b + 4 * c + e + 1"
  have m4: "?Y mod 4 = (if e = 3 then 0 else e + 1)"
  proof (cases "e = 3")
    case True
    then have "?Y = 4 * (100 * a + 25 * b + c + 1) + 0" by simp
    then have "?Y mod 4 = 0" by (rule mod_eqI) simp_all
    with True show ?thesis by simp
  next
    case False
    have "?Y = 4 * (100 * a + 25 * b + c) + (e + 1)" by simp
    then have "?Y mod 4 = e + 1"
      by (rule mod_eqI) (use assms False in simp_all)
    with False show ?thesis by simp
  qed
  have m100: "?Y mod 100 = (if c = 24 \<and> e = 3 then 0 else 4 * c + e + 1)"
  proof (cases "c = 24 \<and> e = 3")
    case True
    then have "?Y = 100 * (4 * a + b + 1) + 0" by simp
    then have "?Y mod 100 = 0" by (rule mod_eqI) simp_all
    with True show ?thesis by simp
  next
    case False
    have eq: "?Y = 100 * (4 * a + b) + (4 * c + e + 1)" by simp
    have bd: "4 * c + e + 1 < 100" using assms False by arith
    have "?Y mod 100 = 4 * c + e + 1"
      using eq _ bd by (rule mod_eqI) (use assms in simp)
    with False show ?thesis by simp
  qed
  have m400: "?Y mod 400 = (if b = 3 \<and> c = 24 \<and> e = 3 then 0 else 100 * b + 4 * c + e + 1)"
  proof (cases "b = 3 \<and> c = 24 \<and> e = 3")
    case True
    then have "?Y = 400 * (a + 1) + 0" by simp
    then have "?Y mod 400 = 0" by (rule mod_eqI) simp_all
    with True show ?thesis by simp
  next
    case False
    have eq: "?Y = 400 * a + (100 * b + 4 * c + e + 1)" by simp
    have bd: "100 * b + 4 * c + e + 1 < 400" using assms False by arith
    have "?Y mod 400 = 100 * b + 4 * c + e + 1"
      using eq _ bd by (rule mod_eqI) (use assms in simp)
    with False show ?thesis by simp
  qed
  show ?thesis
    unfolding is_leap_def m4 m100 m400 using assms by auto
qed

lemma ord2ymd_shape:
  "ord2ymd n =
    (if (n - 1) mod 146097 mod 36524 mod 1461 div 365 = 4 \<or> (n - 1) mod 146097 div 36524 = 4
     then ((n - 1) div 146097 * 400 + 1 + (n - 1) mod 146097 div 36524 * 100
            + (n - 1) mod 146097 mod 36524 div 1461 * 4 + (n - 1) mod 146097 mod 36524 mod 1461 div 365 - 1, 12, 31)
     else ymd_tail ((n - 1) div 146097 * 400 + 1 + (n - 1) mod 146097 div 36524 * 100
            + (n - 1) mod 146097 mod 36524 div 1461 * 4 + (n - 1) mod 146097 mod 36524 mod 1461 div 365)
           ((n - 1) mod 146097 mod 36524 mod 1461 div 365 = 3 \<and>
              ((n - 1) mod 146097 mod 36524 div 1461 \<noteq> 24 \<or> (n - 1) mod 146097 div 36524 = 3))
           ((n - 1) mod 146097 mod 36524 mod 1461 mod 365))"
  unfolding ord2ymd_def ymd_tail_def Let_def by (rule refl)

lemma nth_dbm:
  "DAYS_BEFORE_MONTH ! Suc 0 = 0" "DAYS_BEFORE_MONTH ! 2 = 31" "DAYS_BEFORE_MONTH ! 3 = 59"
  "DAYS_BEFORE_MONTH ! 4 = 90" "DAYS_BEFORE_MONTH ! 5 = 120" "DAYS_BEFORE_MONTH ! 6 = 151"
  "DAYS_BEFORE_MONTH ! 7 = 181" "DAYS_BEFORE_MONTH ! 8 = 212" "DAYS_BEFORE_MONTH ! 9 = 243"
  "DAYS_BEFORE_MONTH ! 10 = 273" "DAYS_BEFORE_MONTH ! 11 = 304" "DAYS_BEFORE_MONTH ! 12 = 334"
  by (simp_all add: DAYS_BEFORE_MONTH_def)

lemma nth_dim:
  "DAYS_IN_MONTH ! Suc 0 = 31" "DAYS_IN_MONTH ! 2 = 28" "DAYS_IN_MONTH ! 3 = 31"
  "DAYS_IN_MONTH ! 4 = 30" "DAYS_IN_MONTH ! 5 = 31" "DAYS_IN_MONTH ! 6 = 30"
  "DAYS_IN_MONTH ! 7 = 31" "DAYS_IN_MONTH ! 8 = 31" "DAYS_IN_MONTH ! 9 = 30"
  "DAYS_IN_MONTH ! 10 = 31" "DAYS_IN_MONTH ! 11 = 30" "DAYS_IN_MONTH ! 12 = 31"
  by (simp_all add: DAYS_IN_MONTH_def)

lemma ymd_tail_cases:
  fixes r :: int
  assumes "0 \<le> r" "r < 365"
  shows "case ymd_tail y l r of (y', m, d) \<Rightarrow>
      y' = y \<and> 1 \<le> m \<and> m \<le> 12 \<and> 1 \<le> d \<and> d \<le> 31 \<and>
      DAYS_BEFORE_MONTH ! nat m + (if 2 < m \<and> l then 1 else 0) + d = r + 1"
proof -
  define q where "q = (r + 50) div 32"
  have q: "32 * q \<le> r + 50" "r + 50 < 32 * q + 32"
    unfolding q_def by (simp_all add: algebra_simps)
  then have "1 \<le> q" "q \<le> 12" using assms by arith+
  then have "q \<in> {1, 2, 3, 4, 5, 6, 7, 8, 9, 10, 11, 12}" by (simp only: insert_iff empty_iff) arith
  then show ?thesis
    unfolding ymd_tail_def q_def [symmetric]
    using q assms
    by (elim insertE emptyE) (simp_all add: nth_dbm nth_dim)
qed

lemma ymd_tail_ok:
  assumes "0 \<le> r" "r < 365"
  obtains m d where "ymd_tail y l r = (y, m, d)" "1 \<le> m" "m \<le> 12" "1 \<le> d" "d \<le> 31"
    "DAYS_BEFORE_MONTH ! nat m + (if 2 < m \<and> l then 1 else 0) + d = r + 1"
  using ymd_tail_cases [OF assms, of y l] by (cases "ymd_tail y l r") auto

text \<open>The date of an ordinal is a date of the calendar, and its ordinal is the one it came
  from.\<close>

lemma ord2ymd_ok:
  "case ord2ymd n of (y, m, d) \<Rightarrow> ymd2ord y m d = n \<and> 1 \<le> m \<and> m \<le> 12 \<and> 1 \<le> d \<and> d \<le> 31"
proof -
  define a where "a = (n - 1) div 146097"
  define r1 where "r1 = (n - 1) mod 146097"
  define b where "b = r1 div 36524"
  define r2 where "r2 = r1 mod 36524"
  define c where "c = r2 div 1461"
  define r3 where "r3 = r2 mod 1461"
  define e where "e = r3 div 365"
  define r4 where "r4 = r3 mod 365"
  define L where "L = (e = 3 \<and> (c \<noteq> 24 \<or> b = 3))"
  have n1: "n - 1 = 146097 * a + r1" and r1: "0 \<le> r1" "r1 < 146097"
    by (simp_all add: a_def r1_def)
  have n2: "r1 = 36524 * b + r2" and r2: "0 \<le> r2" "r2 < 36524"
    by (simp_all add: b_def r2_def)
  have n3: "r2 = 1461 * c + r3" and r3: "0 \<le> r3" "r3 < 1461"
    by (simp_all add: c_def r3_def)
  have n4: "r3 = 365 * e + r4" and r4: "0 \<le> r4" "r4 < 365"
    by (simp_all add: e_def r4_def)
  have b: "0 \<le> b" "b \<le> 4" using n2 r1 r2 by arith+
  have c: "0 \<le> c" "c \<le> 24" using n3 r2 r3 by arith+
  have e: "0 \<le> e" "e \<le> 4" using n4 r3 r4 by arith+
  have n_eq: "n = 146097 * a + 36524 * b + 1461 * c + 365 * e + r4 + 1"
    using n1 n2 n3 n4 by arith
  have o: "ord2ymd n =
      (if e = 4 \<or> b = 4 then (a * 400 + 1 + b * 100 + c * 4 + e - 1, 12, 31)
       else ymd_tail (a * 400 + 1 + b * 100 + c * 4 + e) L r4)"
    unfolding ord2ymd_shape [of n] L_def r4_def e_def r3_def c_def r2_def b_def r1_def a_def
    by (rule refl)
  show ?thesis
  proof (cases "b = 4")
    case True
    then have "r2 = 0" using n2 r1 r2 by arith
    then have z: "c = 0" "e = 0" "r4 = 0" by (simp_all add: c_def e_def r4_def r3_def)
    have lp: "is_leap (400 * a + 100 * 3 + 4 * 24 + 3 + 1)"
      by (subst leap_decomp) simp_all
    have dy: "days_before_year (400 * a + 100 * 3 + 4 * 24 + 3 + 1) = 146097 * a + 36524 * 3 + 1461 * 24 + 365 * 3"
      by (rule dby_decomp) simp_all
    have yr: "a * 400 + 1 + b * 100 + c * 4 + e - 1 = 400 * a + 100 * 3 + 4 * 24 + 3 + 1"
      using True z by simp
    have "ord2ymd n = (400 * a + 100 * 3 + 4 * 24 + 3 + 1, 12, 31)"
      using o True yr by simp
    moreover have "ymd2ord (400 * a + 100 * 3 + 4 * 24 + 3 + 1) 12 31 = n"
      unfolding ymd2ord_def days_before_month_def dy using lp n_eq True z
      by (simp add: DAYS_BEFORE_MONTH_def)
    ultimately show ?thesis by simp
  next
    case nb: False
    then have b3: "b \<le> 3" using b by arith
    show ?thesis
    proof (cases "e = 4")
      case True
      then have r40: "r4 = 0" using n4 r3 r4 by arith
      have c23: "c \<le> 23" using True n3 n4 r2 r4 by arith
      have lp: "is_leap (400 * a + 100 * b + 4 * c + 3 + 1)"
        using b b3 c c23 by (subst leap_decomp) simp_all
      have dy: "days_before_year (400 * a + 100 * b + 4 * c + 3 + 1) = 146097 * a + 36524 * b + 1461 * c + 365 * 3"
        using b b3 c by (intro dby_decomp) simp_all
      have yr: "a * 400 + 1 + b * 100 + c * 4 + e - 1 = 400 * a + 100 * b + 4 * c + 3 + 1"
        using True by simp
      have "ord2ymd n = (400 * a + 100 * b + 4 * c + 3 + 1, 12, 31)"
        using o True yr by simp
      moreover have "ymd2ord (400 * a + 100 * b + 4 * c + 3 + 1) 12 31 = n"
        unfolding ymd2ord_def days_before_month_def dy using lp n_eq True r40
        by (simp add: DAYS_BEFORE_MONTH_def)
      ultimately show ?thesis by simp
    next
      case False
      then have e3: "e \<le> 3" using e by arith
      have lp: "is_leap (400 * a + 100 * b + 4 * c + e + 1) = L"
        unfolding L_def using b b3 c e e3 by (intro leap_decomp) simp_all
      have dy: "days_before_year (400 * a + 100 * b + 4 * c + e + 1) = 146097 * a + 36524 * b + 1461 * c + 365 * e"
        using b b3 c e e3 by (intro dby_decomp) simp_all
      have yr: "a * 400 + 1 + b * 100 + c * 4 + e = 400 * a + 100 * b + 4 * c + e + 1"
        by simp
      obtain m d where md: "ymd_tail (400 * a + 100 * b + 4 * c + e + 1) L r4 = (400 * a + 100 * b + 4 * c + e + 1, m, d)"
        and ok: "1 \<le> m" "m \<le> 12" "1 \<le> d" "d \<le> 31"
        and pre: "DAYS_BEFORE_MONTH ! nat m + (if 2 < m \<and> L then 1 else 0) + d = r4 + 1"
        using r4 by (rule ymd_tail_ok)
      have "ord2ymd n = (400 * a + 100 * b + 4 * c + e + 1, m, d)"
        using o nb False md yr by simp
      moreover have "ymd2ord (400 * a + 100 * b + 4 * c + e + 1) m d = n"
        unfolding ymd2ord_def days_before_month_def dy lp using pre n_eq by simp
      ultimately show ?thesis using ok by simp
    qed
  qed
qed

lemma ymd_of_toordinal:
  "ymd2ord (year t) (month t) (day t) = toordinal t"
  using ord2ymd_ok [of "toordinal t"]
  by (simp add: year_def month_def day_def split: prod.splits)

lemma day_ge_1: "1 \<le> day t"
  using ord2ymd_ok [of "toordinal t"]
  by (simp add: day_def split: prod.splits)

lemma start_today_midnight: "start_today now = now div ms_per_day * ms_per_day"
  by (simp add: start_today_def datetime_utc_def ymd_of_toordinal toordinal_def)

lemma start_today_le: "start_today now \<le> now"
proof -
  have "now div ms_per_day * ms_per_day = now - now mod ms_per_day"
    by (simp add: minus_mod_eq_div_mult)
  moreover have "0 \<le> now mod ms_per_day" by (simp add: ms_per_day_def)
  ultimately show ?thesis by (simp add: start_today_midnight)
qed

lemma start_month_le: "start_month now \<le> start_today now"
  using day_ge_1 [of now]
  by (simp add: start_month_def start_today_def datetime_utc_def ymd2ord_def ms_per_day_def)

lemma toordinal_shift: "toordinal (t + timedelta k) = toordinal t + k"
  by (simp add: toordinal_def timedelta_def ms_per_day_def)

lemma toordinal_start_14: "toordinal (now - timedelta 13 + timedelta (int i)) = toordinal now - 13 + int i"
proof -
  have "now - timedelta 13 + timedelta (int i) = now + timedelta (int i - 13)"
    by (simp add: timedelta_def algebra_simps)
  then have "toordinal (now - timedelta 13 + timedelta (int i)) = toordinal (now + timedelta (int i - 13))"
    by (rule arg_cong)
  then show ?thesis by (simp only: toordinal_shift)
qed

section \<open>Grouping\<close>

lemma fst_upd: "fst \<circ> (\<lambda>(k, a). if k = x then (k, f a) else (k, a)) = fst"
  by (auto simp: fun_eq_iff)

lemma map_fst_upd:
  "map fst (map (\<lambda>(k, a). if k = x then (k, f a) else (k, a)) gs) = map fst gs"
  by (simp add: fst_upd)

lemma map_of_upd:
  "map_of (map (\<lambda>(k, a). if k = x then (k, f a) else (k, a)) gs) k =
     (if k = x then map_option f (map_of gs k) else map_of gs k)"
  by (induction gs) auto

lemma group_step_keys:
  "fst ` set (group_step key acc init d gs) = insert (key d) (fst ` set gs)"
proof (cases "key d \<in> fst ` set gs")
  case True
  have "set (map fst (group_step key acc init d gs)) = set (map fst gs)"
    using True by (simp add: group_step_def fst_upd del: set_map)
  then show ?thesis using True by auto
next
  case False
  then show ?thesis by (simp add: group_step_def)
qed

lemma group_step_distinct:
  "distinct (map fst gs) \<Longrightarrow> distinct (map fst (group_step key acc init d gs))"
  by (simp add: group_step_def fst_upd)

lemma group_step_map_of:
  "map_of (group_step key acc init d gs) k =
     (if k = key d then Some (acc d (case map_of gs k of None \<Rightarrow> init | Some a \<Rightarrow> a))
      else map_of gs k)"
proof (cases "key d \<in> fst ` set gs")
  case True
  then obtain a where "map_of gs (key d) = Some a"
    by (metis domD dom_map_of_conv_image_fst)
  then show ?thesis using True
    by (simp add: group_step_def map_of_upd)
next
  case False
  then have "map_of gs (key d) = None"
    by (simp add: map_of_eq_None_iff)
  then show ?thesis using False
    by (simp add: group_step_def map_add_def split: option.splits)
qed

lemma fold_group_step:
  "distinct (map fst gs) \<Longrightarrow>
   distinct (map fst (fold (group_step key acc init) docs gs)) \<and>
   fst ` set (fold (group_step key acc init) docs gs) = key ` set docs \<union> fst ` set gs \<and>
   (\<forall>k. map_of (fold (group_step key acc init) docs gs) k =
      (if k \<in> key ` set docs \<union> fst ` set gs
       then Some (fold acc (filter (\<lambda>d. key d = k) docs)
                    (case map_of gs k of None \<Rightarrow> init | Some a \<Rightarrow> a))
       else None))"
proof (induction docs arbitrary: gs)
  case Nil
  have h: "map_of (fold (group_step key acc init) [] gs) k =
      (if k \<in> key ` set [] \<union> fst ` set gs
       then Some (fold acc (filter (\<lambda>d. key d = k) [])
                    (case map_of gs k of None \<Rightarrow> init | Some a \<Rightarrow> a))
       else None)" for k
  proof (cases "map_of gs k")
    case None
    then show ?thesis by (simp add: map_of_eq_None_iff)
  next
    case (Some a)
    then have "k \<in> fst ` set gs" by (metis domI dom_map_of_conv_image_fst)
    then show ?thesis using Some by simp
  qed
  have d: "distinct (map fst (fold (group_step key acc init) [] gs))"
    using Nil by simp
  have k: "fst ` set (fold (group_step key acc init) [] gs) = key ` set [] \<union> fst ` set gs"
    by simp
  show ?case by (intro conjI allI) (rule d k h)+
next
  case (Cons d docs)
  have dist: "distinct (map fst (group_step key acc init d gs))"
    using Cons.prems by (rule group_step_distinct)
  note IH = Cons.IH [OF dist]
  have 1: "distinct (map fst (fold (group_step key acc init) (d # docs) gs))"
    using IH by simp
  have 2: "fst ` set (fold (group_step key acc init) (d # docs) gs) = key ` set (d # docs) \<union> fst ` set gs"
    using IH by (simp add: group_step_keys)
  have 3: "map_of (fold (group_step key acc init) (d # docs) gs) k =
      (if k \<in> key ` set (d # docs) \<union> fst ` set gs
       then Some (fold acc (filter (\<lambda>d. key d = k) (d # docs))
                    (case map_of gs k of None \<Rightarrow> init | Some a \<Rightarrow> a))
       else None)" for k
  proof (cases "k = key d")
    case True
    then show ?thesis using IH by (simp add: group_step_keys group_step_map_of)
  next
    case False
    then show ?thesis using IH by (simp add: group_step_keys group_step_map_of)
  qed
  show ?case by (intro conjI allI) (rule 1 2 3)+
qed

lemma group_distinct: "distinct (map fst (group_docs key acc init docs))"
  using fold_group_step [of "[]" key acc init docs] by (simp add: group_docs_def)


lemma group_map_of:
  "map_of (group_docs key acc init docs) k =
     (if k \<in> key ` set docs then Some (fold acc (filter (\<lambda>d. key d = k) docs) init) else None)"
  using fold_group_step [of "[]" key acc init docs] by (simp add: group_docs_def)


lemma fold_add_order:
  "fold add_order ds t =
     \<lparr>revenue = revenue t + sum_list (map total_amount ds), orders = orders t + length ds\<rparr>"
  by (induction ds arbitrary: t) (simp_all add: add_order_def)



lemma group_unit:
  "group_docs (\<lambda>_. ()) acc init docs = (if docs = [] then [] else [((), fold acc docs init)])"
proof -
  have "fold (group_step (\<lambda>_. ()) acc init) ds [((), a)] = [((), fold acc ds a)]" for ds a
    by (induction ds arbitrary: a) (simp_all add: group_step_def)
  then show ?thesis
    by (cases docs) (simp_all add: group_docs_def group_step_def)
qed

lemma map_of_sort_key:
  assumes "distinct (map fst gs)"
  shows "map_of (sort_key f gs) = map_of gs"
proof -
  have "distinct (map fst (sort_key f gs))"
    using assms by (simp add: distinct_map)
  moreover have "set (sort_key f gs) = set gs" by simp
  ultimately show ?thesis using assms by (simp add: map_of_inject_set)
qed

section \<open>Rounding\<close>

lemma py_round_bounds: "\<lfloor>x\<rfloor> \<le> py_round x \<and> py_round x \<le> \<lfloor>x\<rfloor> + 1"
  by (simp add: py_round_def Let_def)

lemma py_round_mono:
  assumes "x \<le> y"
  shows "py_round x \<le> py_round y"
proof (cases "\<lfloor>x\<rfloor> = \<lfloor>y\<rfloor>")
  case True
  have "x - of_int \<lfloor>y\<rfloor> \<le> y - of_int \<lfloor>y\<rfloor>" using assms by simp
  then show ?thesis
    using True by (auto simp: py_round_def Let_def)
next
  case False
  then have "\<lfloor>x\<rfloor> + 1 \<le> \<lfloor>y\<rfloor>"
    using floor_mono [OF assms] by linarith
  then show ?thesis
    using py_round_bounds [of x] py_round_bounds [of y] by linarith
qed

lemma round2_mono: "x \<le> y \<Longrightarrow> round2 x \<le> round2 y"
  by (simp add: round2_def py_round_mono divide_right_mono)

lemma py_round_of_int: "py_round (of_int k) = k"
  by (simp add: py_round_def)


lemma round2_two_places: "two_places x \<Longrightarrow> round2 x = x"
proof -
  assume "two_places x"
  then have "x * 100 = of_int \<lfloor>x * 100\<rfloor>" unfolding two_places_def by (rule sym)
  then have "py_round (x * 100) = \<lfloor>x * 100\<rfloor>" by (metis py_round_of_int)
  then show ?thesis using \<open>x * 100 = of_int \<lfloor>x * 100\<rfloor>\<close> by (simp add: round2_def)
qed



section \<open>What each part of the overview computes\<close>

lemma window_totals:
  "first_or_zero (pipeline_window s docs) =
     \<lparr>revenue = sum_list (map total_amount (filter (match_gte s) docs)),
      orders = length (filter (match_gte s) docs)\<rparr>"
  by (simp add: first_or_zero_def pipeline_window_def group_unit fold_add_order zero_totals_def)

lemma avg_order_value_of_eq:
  "avg_order_value_of t =
     Inr (if orders t \<noteq> 0 then round2 (revenue t / of_nat (orders t)) else 0)"
  by (simp add: avg_order_value_of_def py_div_def)

lemma overview_configured:
  "analytics_overview (Some d) now =
     Inr \<lparr>today_revenue = round2 (revenue (first_or_zero (pipeline_window (start_today now) (order d)))),
          today_orders = orders (first_or_zero (pipeline_window (start_today now) (order d))),
          mtd_revenue = round2 (revenue (first_or_zero (pipeline_window (start_month now) (order d)))),
          mtd_orders = orders (first_or_zero (pipeline_window (start_month now) (order d))),
          avg_order_value =
            (if orders (first_or_zero (pipeline_window (start_month now) (order d))) \<noteq> 0
             then round2 (revenue (first_or_zero (pipeline_window (start_month now) (order d)))
                          / of_nat (orders (first_or_zero (pipeline_window (start_month now) (order d)))))
             else 0),
          top_products = map top_product_row (pipeline_top_products (now - timedelta 30) (order d)),
          timeseries = timeseries_of (now - timedelta 13) (pipeline_timeseries (now - timedelta 13) (order d)),
          segments = map segment_row_of (pipeline_segments (customer d))\<rparr>"
  by (simp add: analytics_overview_def avg_order_value_of_eq Let_def)


lemma by_day_lookup:
  "map_of (pipeline_timeseries s docs) d =
     (if day_orders s docs d = [] then None
      else Some \<lparr>revenue = sum_list (map total_amount (day_orders s docs d)),
                 orders = length (day_orders s docs d)\<rparr>)"
proof -
  have "(d \<in> order_day ` set (filter (match_gte s) docs)) = (day_orders s docs d \<noteq> [])"
    by (auto simp: day_orders_def filter_empty_conv)
  then show ?thesis
    unfolding pipeline_timeseries_def
    by (simp add: map_of_sort_key group_distinct group_map_of fold_add_order zero_totals_def
        day_orders_def)
qed

lemma timeseries_entries:
  "timeseries_of s (pipeline_timeseries s docs) =
     map (\<lambda>i. \<lparr>ts_day = date_isoformat (s + timedelta (int i)),
                ts_revenue = sum_list (map total_amount (day_orders s docs (date_isoformat (s + timedelta (int i))))),
                ts_orders = length (day_orders s docs (date_isoformat (s + timedelta (int i))))\<rparr>) [0..<14]"
  unfolding timeseries_of_def Let_def map_map comp_def
  by (rule map_cong [OF refl]) (simp add: by_day_lookup)

lemma overview_timeseries:
  "\<exists>r. analytics_overview (Some d) now = Inr r \<and>
     timeseries r =
       map (\<lambda>i. \<lparr>ts_day = isoformat (ord2ymd (toordinal now - 13 + int i)),
                  ts_revenue = sum_list (map total_amount (day_orders (now - timedelta 13) (order d)
                                 (isoformat (ord2ymd (toordinal now - 13 + int i))))),
                  ts_orders = length (day_orders (now - timedelta 13) (order d)
                                 (isoformat (ord2ymd (toordinal now - 13 + int i))))\<rparr>) [0..<14]"
  by (simp add: overview_configured timeseries_entries date_isoformat_def toordinal_start_14)


lemma day_orders_none:
  "\<forall>doc \<in> set docs. order_day doc \<noteq> d \<Longrightarrow> day_orders s docs d = []"
  by (simp add: day_orders_def filter_empty_conv)















lemma filter_mono_length:
  "(\<And>x. x \<in> set xs \<Longrightarrow> P x \<Longrightarrow> Q x) \<Longrightarrow> length (filter P xs) \<le> length (filter Q xs)"
  by (induction xs) auto

lemma filter_mono_sum:
  fixes f :: "'a \<Rightarrow> rat"
  shows "(\<And>x. x \<in> set xs \<Longrightarrow> P x \<Longrightarrow> Q x) \<Longrightarrow> (\<And>x. x \<in> set xs \<Longrightarrow> 0 \<le> f x) \<Longrightarrow>
    sum_list (map f (filter P xs)) \<le> sum_list (map f (filter Q xs))"
proof (induction xs)
  case Nil
  then show ?case by simp
next
  case (Cons x xs)
  have IH: "sum_list (map f (filter P xs)) \<le> sum_list (map f (filter Q xs))"
    using Cons by simp
  have fx: "0 \<le> f x" using Cons.prems(2) by simp
  show ?case
  proof (cases "P x")
    case True
    then have "Q x" using Cons.prems(1) by simp
    with True IH show ?thesis by simp
  next
    case False
    with IH fx show ?thesis by (cases "Q x") simp_all
  qed
qed

lemma match_gte_mono: "s \<le> s' \<Longrightarrow> match_gte s' doc \<Longrightarrow> match_gte s doc"
  by (auto simp: match_gte_def split: option.splits)

lemma match_gte_items: "match_gte s (doc\<lparr>items := its\<rparr>) = match_gte s doc"
  by (simp add: match_gte_def)

lemma match_gte_total: "match_gte s (doc\<lparr>total_amount := a\<rparr>) = match_gte s doc"
  by (simp add: match_gte_def)

lemma window_ignores_items:
  "first_or_zero (pipeline_window s (map (\<lambda>doc. doc\<lparr>items := f doc\<rparr>) docs))
     = first_or_zero (pipeline_window s docs)"
  by (simp add: window_totals filter_map comp_def match_gte_items)

lemma top_products_ignore_total:
  "pipeline_top_products s (map (\<lambda>doc. doc\<lparr>total_amount := g doc\<rparr>) docs)
     = pipeline_top_products s docs"
  by (simp add: pipeline_top_products_def unwind_items_def filter_map comp_def match_gte_total)

section \<open>The sample inputs evaluated\<close>

lemma sample_order_sel:
  "items (sample_order its a t) = its"
  "total_amount (sample_order its a t) = a"
  "placed_at (sample_order its a t) = t"
  by (simp_all add: sample_order_def)

lemma noon_value: "noon = 63846100800000"
  by (simp add: noon_def hour_def datetime_utc_def ymd2ord_def days_before_year_def
      days_before_month_def DAYS_BEFORE_MONTH_def is_leap_def ms_per_day_def)

lemma toordinal_noon: "toordinal noon = 738960"
  by (simp add: noon_value toordinal_def ms_per_day_def)

lemma start_today_noon: "start_today noon = 63846057600000"
  by (simp add: start_today_midnight noon_value ms_per_day_def)

lemma ord2ymd_noon: "ord2ymd (toordinal noon) = (2024, 3, 15)"
  by (simp add: noon_value toordinal_def ms_per_day_def ord2ymd_def Let_def
      DAYS_BEFORE_MONTH_def DAYS_IN_MONTH_def)

lemma start_month_noon: "start_month noon = 63844848000000"
  by (simp add: start_month_def year_def month_def ord2ymd_noon datetime_utc_def ymd2ord_def
      days_before_year_def days_before_month_def DAYS_BEFORE_MONTH_def is_leap_def ms_per_day_def)

lemma iso_oldest: "isoformat (ord2ymd 738947) = ''2024-03-02''"
  by (simp add: ord2ymd_def Let_def DAYS_BEFORE_MONTH_def DAYS_IN_MONTH_def isoformat_def digit_def)

lemma iso_today: "isoformat (ord2ymd 738960) = ''2024-03-15''"
  by (simp add: ord2ymd_def Let_def DAYS_BEFORE_MONTH_def DAYS_IN_MONTH_def isoformat_def digit_def)

lemma early_order_day: "order_day early_order = ''2024-03-02''"
proof -
  have "toordinal (datetime_utc 2024 3 2 + 8 * hour) = 738947"
    by (simp add: toordinal_def hour_def datetime_utc_def ymd2ord_def days_before_year_def
        days_before_month_def DAYS_BEFORE_MONTH_def is_leap_def ms_per_day_def)
  then show ?thesis
    by (simp add: early_order_def sample_order_def order_day_def dateToString_def iso_oldest)
qed

lemma early_order_unmatched: "\<not> match_gte (noon - timedelta 13) early_order"
  by (simp add: noon_value timedelta_def early_order_def sample_order_def match_gte_def
      hour_def datetime_utc_def ymd2ord_def days_before_year_def
      days_before_month_def DAYS_BEFORE_MONTH_def is_leap_def ms_per_day_def)




lemma morning_matched:
  "match_gte (start_today noon) (sample_order its a (Some (datetime_utc 2024 3 15 + 9 * hour)))"
  "match_gte (start_month noon) (sample_order its a (Some (datetime_utc 2024 3 15 + 9 * hour)))"
  "match_gte (noon - timedelta 30) (sample_order its a (Some (datetime_utc 2024 3 15 + 9 * hour)))"
  "match_gte (noon - timedelta 13) (sample_order its a (Some (datetime_utc 2024 3 15 + 9 * hour)))"
  unfolding start_today_noon start_month_noon
  by (simp_all add: noon_value timedelta_def sample_order_def match_gte_def hour_def
      datetime_utc_def ymd2ord_def days_before_year_def
      days_before_month_def DAYS_BEFORE_MONTH_def is_leap_def ms_per_day_def)




section \<open>Window revenue and order counts\<close>




section \<open>The gap-filled daily series\<close>

text \<open>
  C2. For every order set and every clock value the series has exactly 14 entries; entry \<open>i\<close>
  carries the ISO text of the date whose ordinal is that of today minus 13 plus \<open>i\<close> (a
  date of the calendar with exactly that ordinal), so the
  entries are 14 consecutive calendar days, oldest first, the last one being today. A day for
  which the pipeline has no order (in particular a day on which no order of the store was
  placed) is present with revenue 0 and orders 0; with no orders at all, all 14 entries are
  zero.
\<close>

theorem timeseries_fourteen_days:
  "\<exists>r. analytics_overview (Some d) now = Inr r
     \<and> length (timeseries r) = 14
     \<and> (\<forall>i<14. ts_day (timeseries r ! i) = isoformat (ord2ymd (toordinal now - 13 + int i)))
     \<and> (\<forall>i<14. case ord2ymd (toordinal now - 13 + int i) of (y, m, d) \<Rightarrow>
              ymd2ord y m d = toordinal now - 13 + int i \<and> 1 \<le> m \<and> m \<le> 12 \<and> 1 \<le> d \<and> d \<le> 31)
     \<and> ts_day (timeseries r ! 13) = date_isoformat now
     \<and> (\<forall>i<14. day_orders (now - timedelta 13) (order d) (ts_day (timeseries r ! i)) = []
              \<longrightarrow> ts_revenue (timeseries r ! i) = 0 \<and> ts_orders (timeseries r ! i) = 0)
     \<and> (\<forall>i<14. (\<forall>doc \<in> set (order d). order_day doc \<noteq> ts_day (timeseries r ! i))
              \<longrightarrow> ts_revenue (timeseries r ! i) = 0 \<and> ts_orders (timeseries r ! i) = 0)
     \<and> (order d = [] \<longrightarrow> (\<forall>e \<in> set (timeseries r). ts_revenue e = 0 \<and> ts_orders e = 0))"
proof -
  from overview_timeseries [of d now] obtain r where
    r: "analytics_overview (Some d) now = Inr r" and
    ts: "timeseries r =
       map (\<lambda>i. \<lparr>ts_day = isoformat (ord2ymd (toordinal now - 13 + int i)),
                  ts_revenue = sum_list (map total_amount (day_orders (now - timedelta 13) (order d)
                                 (isoformat (ord2ymd (toordinal now - 13 + int i))))),
                  ts_orders = length (day_orders (now - timedelta 13) (order d)
                                 (isoformat (ord2ymd (toordinal now - 13 + int i))))\<rparr>) [0..<14]"
    by blast
  have len: "length (timeseries r) = 14" by (simp add: ts)
  have nth: "timeseries r ! i =
       \<lparr>ts_day = isoformat (ord2ymd (toordinal now - 13 + int i)),
        ts_revenue = sum_list (map total_amount (day_orders (now - timedelta 13) (order d)
                                 (isoformat (ord2ymd (toordinal now - 13 + int i))))),
        ts_orders = length (day_orders (now - timedelta 13) (order d)
                                 (isoformat (ord2ymd (toordinal now - 13 + int i))))\<rparr>"
    if "i < 14" for i
    unfolding ts using that by (simp only: nth_map length_upt nth_upt) simp
  have days: "\<forall>i<14. ts_day (timeseries r ! i) = isoformat (ord2ymd (toordinal now - 13 + int i))"
    by (simp add: nth)
  have cal: "\<forall>i<14. case ord2ymd (toordinal now - 13 + int i) of (y, m, d) \<Rightarrow>
              ymd2ord y m d = toordinal now - 13 + int i \<and> 1 \<le> m \<and> m \<le> 12 \<and> 1 \<le> d \<and> d \<le> 31"
    by (intro allI impI) (rule ord2ymd_ok)
  have last: "ts_day (timeseries r ! 13) = date_isoformat now"
    by (simp add: nth date_isoformat_def)
  have zero: "\<forall>i<14. day_orders (now - timedelta 13) (order d) (ts_day (timeseries r ! i)) = []
              \<longrightarrow> ts_revenue (timeseries r ! i) = 0 \<and> ts_orders (timeseries r ! i) = 0"
    by (simp add: nth)
  have zero': "\<forall>i<14. (\<forall>doc \<in> set (order d). order_day doc \<noteq> ts_day (timeseries r ! i))
              \<longrightarrow> ts_revenue (timeseries r ! i) = 0 \<and> ts_orders (timeseries r ! i) = 0"
    using zero day_orders_none by blast
  have empty: "order d = [] \<longrightarrow> (\<forall>e \<in> set (timeseries r). ts_revenue e = 0 \<and> ts_orders e = 0)"
    by (auto simp: ts day_orders_def)
  show ?thesis
    using r len days cal last zero zero' empty by blast
qed

theorem timeseries_fourteen_days_witness:
  "\<exists>r. analytics_overview (Some db_oldest) noon = Inr r
     \<and> length (timeseries r) = 14
     \<and> ts_day (timeseries r ! 13) = ''2024-03-15''
     \<and> ts_revenue (timeseries r ! 13) = 0 \<and> ts_orders (timeseries r ! 13) = 0"
proof -
  from timeseries_fourteen_days [of db_oldest noon] obtain r where
    r: "analytics_overview (Some db_oldest) noon = Inr r" and
    len: "length (timeseries r) = 14" and
    days: "\<forall>i<14. ts_day (timeseries r ! i) = isoformat (ord2ymd (toordinal noon - 13 + int i))" and
    zero: "\<forall>i<14. (\<forall>doc \<in> set (order db_oldest). order_day doc \<noteq> ts_day (timeseries r ! i))
              \<longrightarrow> ts_revenue (timeseries r ! i) = 0 \<and> ts_orders (timeseries r ! i) = 0"
    by blast
  have d13: "ts_day (timeseries r ! 13) = ''2024-03-15''"
    using days by (simp add: toordinal_noon iso_today)
  have "\<forall>doc \<in> set (order db_oldest). order_day doc \<noteq> ts_day (timeseries r ! 13)"
    by (simp add: d13 db_oldest_def early_order_day)
  then have "ts_revenue (timeseries r ! 13) = 0 \<and> ts_orders (timeseries r ! 13) = 0"
    using zero by simp
  then show ?thesis using r len d13 by blast
qed

text \<open>
  C3. The claim is that each of the 14 days sums and counts all orders of that calendar day,
  also on the oldest day. The code matches \<open>placed_at \<ge> now - 13 days\<close>, a bound that keeps
  the time of day of \<open>now\<close>, while the day list starts at the date of that bound. At 12:00
  on 2024-03-15, an order of 10 placed at 08:00 on 2024-03-02 falls on the oldest day of the
  series and is not counted: the entry of 2024-03-02 has revenue 0 and orders 0.
\<close>

theorem oldest_day_morning_order_dropped:
  "order_day early_order = ''2024-03-02''
   \<and> \<not> isl (analytics_overview (Some db_oldest) noon)
   \<and> timeseries (projr (analytics_overview (Some db_oldest) noon)) ! 0
       = \<lparr>ts_day = ''2024-03-02'', ts_revenue = 0, ts_orders = 0\<rparr>"
proof -
  from overview_timeseries [of db_oldest noon] obtain r where
    r: "analytics_overview (Some db_oldest) noon = Inr r" and
    ts: "timeseries r =
       map (\<lambda>i. \<lparr>ts_day = isoformat (ord2ymd (toordinal noon - 13 + int i)),
                  ts_revenue = sum_list (map total_amount (day_orders (noon - timedelta 13) (order db_oldest)
                                 (isoformat (ord2ymd (toordinal noon - 13 + int i))))),
                  ts_orders = length (day_orders (noon - timedelta 13) (order db_oldest)
                                 (isoformat (ord2ymd (toordinal noon - 13 + int i))))\<rparr>) [0..<14]"
    by blast
  have "day_orders (noon - timedelta 13) (order db_oldest) k = []" for k
    using early_order_unmatched by (simp add: day_orders_def db_oldest_def)
  then have "timeseries r ! 0 = \<lparr>ts_day = ''2024-03-02'', ts_revenue = 0, ts_orders = 0\<rparr>"
    unfolding ts by (simp add: toordinal_noon iso_oldest upt_rec)
  then show ?thesis using r early_order_day by simp
qed

section \<open>Top products\<close>




section \<open>Customer segments\<close>

text \<open>
  C5. The claim is that customers without a segment and customers whose segment is the empty
  text are counted in one group labelled "Uncategorized". The store groups by the raw field,
  where None and the empty text are different keys, and the label is put on each row after
  the grouping: one customer of each kind gives two rows, both labelled "Uncategorized", each
  with count 1.
\<close>

theorem uncategorized_rows_not_merged:
  "\<not> isl (analytics_overview (Some db_segments) now)
   \<and> segments (projr (analytics_overview (Some db_segments) now))
       = [\<lparr>sg_segment = ''Uncategorized'', sg_count = 1\<rparr>,
          \<lparr>sg_segment = ''Uncategorized'', sg_count = 1\<rparr>]"
  by (simp add: overview_configured db_segments_def sample_customer_def pipeline_segments_def
      group_docs_def group_step_def segment_row_of_def segment_label_def)

section \<open>Average order value\<close>



section \<open>Configuration error\<close>



section \<open>Stored totals and recomputed product revenue\<close>

text \<open>
  C8. The today and month-to-date figures (and the average) read the stored
  \<open>total_amount\<close>: replacing the items of every order by anything else leaves them
  unchanged. The top products are computed from the items: replacing the stored total of every
  order by anything else leaves them unchanged. For an order of this morning with stored total
  100 and a single item of price 5 and quantity 2, the window revenue is 100 and the product's
  revenue is 10.
\<close>

theorem totals_stored_products_recomputed:
  "(\<exists>r r1 r2.
      analytics_overview (Some d) now = Inr r
      \<and> analytics_overview (Some (d\<lparr>order := map (\<lambda>doc. doc\<lparr>items := f doc\<rparr>) (order d)\<rparr>)) now = Inr r1
      \<and> today_revenue r1 = today_revenue r \<and> today_orders r1 = today_orders r
      \<and> mtd_revenue r1 = mtd_revenue r \<and> mtd_orders r1 = mtd_orders r
      \<and> avg_order_value r1 = avg_order_value r
      \<and> analytics_overview (Some (d\<lparr>order := map (\<lambda>doc. doc\<lparr>total_amount := g doc\<rparr>) (order d)\<rparr>)) now = Inr r2
      \<and> top_products r2 = top_products r)
   \<and> \<not> isl (analytics_overview (Some db_mismatch) noon)
   \<and> today_revenue (projr (analytics_overview (Some db_mismatch) noon)) = 100
   \<and> mtd_revenue (projr (analytics_overview (Some db_mismatch) noon)) = 100
   \<and> top_products (projr (analytics_overview (Some db_mismatch) noon))
        = [\<lparr>tp_product_id = ''p1'', tp_title = ''Widget'', tp_quantity = 2, tp_revenue = 10\<rparr>]"
proof -
  have a: "\<exists>r r1 r2.
      analytics_overview (Some d) now = Inr r
      \<and> analytics_overview (Some (d\<lparr>order := map (\<lambda>doc. doc\<lparr>items := f doc\<rparr>) (order d)\<rparr>)) now = Inr r1
      \<and> today_revenue r1 = today_revenue r \<and> today_orders r1 = today_orders r
      \<and> mtd_revenue r1 = mtd_revenue r \<and> mtd_orders r1 = mtd_orders r
      \<and> avg_order_value r1 = avg_order_value r
      \<and> analytics_overview (Some (d\<lparr>order := map (\<lambda>doc. doc\<lparr>total_amount := g doc\<rparr>) (order d)\<rparr>)) now = Inr r2
      \<and> top_products r2 = top_products r"
    by (simp add: overview_configured window_ignores_items top_products_ignore_total)
  have r10: "round2 10 = 10" "round2 100 = 100"
    by (rule round2_two_places, simp add: two_places_def)+
  have b: "\<not> isl (analytics_overview (Some db_mismatch) noon)
   \<and> today_revenue (projr (analytics_overview (Some db_mismatch) noon)) = 100
   \<and> mtd_revenue (projr (analytics_overview (Some db_mismatch) noon)) = 100
   \<and> top_products (projr (analytics_overview (Some db_mismatch) noon))
        = [\<lparr>tp_product_id = ''p1'', tp_title = ''Widget'', tp_quantity = 2, tp_revenue = 10\<rparr>]"
    by (simp add: overview_configured window_totals db_mismatch_def morning_matched r10
        pipeline_top_products_def unwind_items_def group_docs_def group_step_def widget_def
        add_item_def zero_group_def item_key_def top_product_row_def sample_order_sel)
  show ?thesis using a b by blast
qed

theorem totals_stored_products_recomputed_witness:
  "\<exists>r r1 r2.
      analytics_overview (Some db_mismatch) noon = Inr r
      \<and> analytics_overview (Some (db_mismatch\<lparr>order := map (\<lambda>doc. doc\<lparr>items := []\<rparr>) (order db_mismatch)\<rparr>)) noon = Inr r1
      \<and> today_revenue r1 = today_revenue r
      \<and> analytics_overview (Some (db_mismatch\<lparr>order := map (\<lambda>doc. doc\<lparr>total_amount := 0\<rparr>) (order db_mismatch)\<rparr>)) noon = Inr r2
      \<and> top_products r2 = top_products r"
  using totals_stored_products_recomputed [of db_mismatch noon "\<lambda>_. []" "\<lambda>_. 0"] by blast

section \<open>Rounding of the report\<close>



section \<open>Today within month-to-date\<close>

text \<open>
  C10. For every order set and every clock value, the first of the current month is not
  later than midnight of the current day, so every order the today pipeline matches is
  matched by the month-to-date pipeline. Hence \<open>today_orders \<le> mtd_orders\<close>, and when no
  \<open>total_amount\<close> is negative, \<open>today_revenue \<le> mtd_revenue\<close>, for the rounded figures
  of the report and for the sums before rounding.
\<close>

theorem today_within_month_to_date:
  "start_month now \<le> start_today now
   \<and> (\<forall>doc. match_gte (start_today now) doc \<longrightarrow> match_gte (start_month now) doc)
   \<and> (\<exists>r. analytics_overview (Some d) now = Inr r
        \<and> today_orders r \<le> mtd_orders r
        \<and> ((\<forall>doc \<in> set (order d). 0 \<le> total_amount doc) \<longrightarrow> today_revenue r \<le> mtd_revenue r))
   \<and> ((\<forall>doc \<in> set (order d). 0 \<le> total_amount doc) \<longrightarrow>
        revenue (first_or_zero (pipeline_window (start_today now) (order d)))
          \<le> revenue (first_or_zero (pipeline_window (start_month now) (order d))))"
proof -
  have m: "match_gte (start_today now) doc \<Longrightarrow> match_gte (start_month now) doc" for doc
    using start_month_le by (rule match_gte_mono)
  have o: "length (filter (match_gte (start_today now)) (order d))
           \<le> length (filter (match_gte (start_month now)) (order d))"
    by (rule filter_mono_length) (rule m)
  have rv: "round2 (sum_list (map total_amount (filter (match_gte (start_today now)) (order d))))
           \<le> round2 (sum_list (map total_amount (filter (match_gte (start_month now)) (order d))))"
    if "\<forall>doc \<in> set (order d). 0 \<le> total_amount doc"
    by (intro round2_mono filter_mono_sum) (use that m in auto)
  have ex: "sum_list (map total_amount (filter (match_gte (start_today now)) (order d)))
           \<le> sum_list (map total_amount (filter (match_gte (start_month now)) (order d)))"
    if "\<forall>doc \<in> set (order d). 0 \<le> total_amount doc"
    by (intro filter_mono_sum) (use that m in auto)
  show ?thesis
    using m o rv ex by (simp add: start_month_le overview_configured window_totals)
qed

theorem today_within_month_to_date_witness:
  "\<exists>r. analytics_overview (Some db_two) noon = Inr r
     \<and> today_orders r \<le> mtd_orders r \<and> today_revenue r \<le> mtd_revenue r"
proof -
  have nn: "\<forall>doc \<in> set (order db_two). 0 \<le> total_amount doc"
    by (simp add: db_two_def sample_order_def)
  from today_within_month_to_date [of noon db_two] obtain r where
    "analytics_overview (Some db_two) noon = Inr r"
    "today_orders r \<le> mtd_orders r"
    "(\<forall>doc \<in> set (order db_two). 0 \<le> total_amount doc) \<longrightarrow> today_revenue r \<le> mtd_revenue r"
    by blast
  then show ?thesis using nn by blast
qed

end
